theory Spec2Isabelle
  imports Main "HOL-Library.Monad_Syntax"
begin

section \<open>JavaScript strings\<close>

text \<open>
  A JavaScript string is a sequence of code units. The model uses \<^typ>\<open>string\<close>, so it
  covers the documents whose code units are below 256; the character classes of the
  regular expressions and of \<^verbatim>\<open>trim\<close> are the ECMAScript ones cut down to that range.
\<close>

definition newline :: char where
  "newline = CHR 0x0A"

text \<open>The class \<^verbatim>\<open>\s\<close>, which is also what \<^verbatim>\<open>String.prototype.trim\<close> removes:
  TAB, LF, VT, FF, CR, space and the no-break space.\<close>

definition isSpace :: "char \<Rightarrow> bool" where
  "isSpace c \<longleftrightarrow> c \<in> {CHR 0x09, CHR 0x0A, CHR 0x0B, CHR 0x0C, CHR 0x0D, CHR 0x20, CHR 0xA0}"

text \<open>The class \<^verbatim>\<open>\w\<close>: ASCII letters, digits and the underscore.\<close>

definition isWord :: "char \<Rightarrow> bool" where
  "isWord c \<longleftrightarrow> c \<in> set ''abcdefghijklmnopqrstuvwxyzABCDEFGHIJKLMNOPQRSTUVWXYZ0123456789_''"

text \<open>The class \<^verbatim>\<open>.\<close> (without the \<^verbatim>\<open>s\<close> flag): everything but a line terminator.\<close>

definition isDot :: "char \<Rightarrow> bool" where
  "isDot c \<longleftrightarrow> c \<noteq> CHR 0x0A \<and> c \<noteq> CHR 0x0D"

definition trimStart :: "string \<Rightarrow> string" where
  "trimStart s = dropWhile isSpace s"

definition trimEnd :: "string \<Rightarrow> string" where
  "trimEnd s = rev (dropWhile isSpace (rev s))"

definition trim :: "string \<Rightarrow> string" where
  "trim s = trimEnd (trimStart s)"

text \<open>\<^verbatim>\<open>s.startsWith(p)\<close>\<close>

fun startsWith :: "string \<Rightarrow> string \<Rightarrow> bool" where
  "startsWith [] s = True"
| "startsWith (p # ps) [] = False"
| "startsWith (p # ps) (c # cs) = (p = c \<and> startsWith ps cs)"

text \<open>\<^verbatim>\<open>s.indexOf(p)\<close>: the first position where \<open>p\<close> occurs, \<open>None\<close> for \<open>-1\<close>.\<close>

fun indexOf :: "string \<Rightarrow> string \<Rightarrow> nat option" where
  "indexOf p [] = (if p = [] then Some 0 else None)"
| "indexOf p (c # cs) =
     (if startsWith p (c # cs) then Some 0 else map_option Suc (indexOf p cs))"

text \<open>\<^verbatim>\<open>s.substring(a, b)\<close>: both ends are clamped to the length and swapped when
  \<open>a > b\<close>.\<close>

definition substring :: "string \<Rightarrow> nat \<Rightarrow> nat \<Rightarrow> string" where
  "substring s a b =
     (let a' = min a (length s); b' = min b (length s);
          lo = min a' b'; hi = max a' b'
      in take (hi - lo) (drop lo s))"

text \<open>\<^verbatim>\<open>s.substring(a)\<close>\<close>

definition substringFrom :: "string \<Rightarrow> nat \<Rightarrow> string" where
  "substringFrom s a = drop a s"

text \<open>\<^verbatim>\<open>s.split(c)\<close> for a separator of one character: never the empty array.\<close>

fun splitChar :: "char \<Rightarrow> string \<Rightarrow> string list" where
  "splitChar sep [] = [[]]"
| "splitChar sep (c # cs) =
     (if c = sep then [] # splitChar sep cs
      else (case splitChar sep cs of
              [] \<Rightarrow> [[c]]
            | t # ts \<Rightarrow> (c # t) # ts))"

text \<open>\<^verbatim>\<open>s.split(/\s+/)\<close>: the pieces between the maximal runs of white space.\<close>

function splitSpaces :: "string \<Rightarrow> string list" where
  "splitSpaces s =
     (let tok = takeWhile (\<lambda>c. \<not> isSpace c) s; rest = dropWhile (\<lambda>c. \<not> isSpace c) s
      in if rest = [] then [tok] else tok # splitSpaces (dropWhile isSpace rest))"
  by pat_completeness auto
termination
proof (relation "measure length")
  fix s tok rest
  assume r: "rest = dropWhile (\<lambda>c. \<not> isSpace c) s" and ne: "rest \<noteq> []"
  have "isSpace (hd rest)"
    using r ne hd_dropWhile [of "\<lambda>c. \<not> isSpace c" s] by auto
  then have "length (dropWhile isSpace rest) < length rest"
    using ne by (cases rest) (auto simp: le_imp_less_Suc length_dropWhile_le)
  also have "length rest \<le> length s"
    using r by (simp add: length_dropWhile_le)
  finally show "(dropWhile isSpace rest, s) \<in> measure length" by simp
qed simp

declare splitSpaces.simps [simp del]

text \<open>\<^verbatim>\<open>s.toLowerCase()\<close> on code units below 256: A to Z, and the Latin-1 capitals
  0xC0 to 0xDE without the multiplication sign 0xD7.\<close>

definition toLowerChar :: "char \<Rightarrow> char" where
  "toLowerChar c =
     (let n = (of_char c :: nat)
      in if (65 \<le> n \<and> n \<le> 90) \<or> (192 \<le> n \<and> n \<le> 222 \<and> n \<noteq> 215)
         then char_of (n + 32) else c)"

definition toLowerCase :: "string \<Rightarrow> string" where
  "toLowerCase s = map toLowerChar s"

section \<open>Plain objects used as dictionaries\<close>

text \<open>
  \<^verbatim>\<open>typeMappings\<close>, \<^verbatim>\<open>enums\<close> and \<^verbatim>\<open>entities\<close> are object literals, so a property read
  that finds no own property goes on to \<^verbatim>\<open>Object.prototype\<close>. These are its property
  names; each of them reads as a function, except \<^verbatim>\<open>__proto__\<close>, which reads as the
  prototype object. All of them are truthy.
\<close>

definition objectPrototypeKeys :: "string list" where
  "objectPrototypeKeys =
     [''constructor'', ''__defineGetter__'', ''__defineSetter__'', ''hasOwnProperty'',
      ''__lookupGetter__'', ''__lookupSetter__'', ''isPrototypeOf'', ''propertyIsEnumerable'',
      ''toString'', ''valueOf'', ''__proto__'', ''toLocaleString'']"

section \<open>The type mapper\<close>

text \<open>
  The values \<^verbatim>\<open>getTsType\<close> can return: a string, or the value of a property of
  \<^verbatim>\<open>Object.prototype\<close>, named by its key.
\<close>

datatype jsval = JStr string | JProtoMember string

text \<open>A property key is the string of the value. A built-in function prints as
  \<^verbatim>\<open>function name() { [native code] }\<close>, \<^verbatim>\<open>Object.prototype\<close> as \<^verbatim>\<open>[object Object]\<close>.\<close>

fun toPropertyKey :: "jsval \<Rightarrow> string" where
  "toPropertyKey (JStr s) = s"
| "toPropertyKey (JProtoMember k) =
     (if k = ''__proto__'' then ''[object Object]''
      else ''function '' @ (if k = ''constructor'' then ''Object'' else k) @ ''() { [native code] }'')"

definition typeMappings :: "(string \<times> string) list" where
  "typeMappings =
     [(''String'', ''string''),
      (''Integer'', ''number''),
      (''Long'', ''number''),
      (''BigDecimal'', ''number''),
      (''Float'', ''number''),
      (''Double'', ''number''),
      (''Boolean'', ''boolean''),
      (''LocalDate'', ''dayjs.Dayjs''),
      (''Instant'', ''dayjs.Dayjs''),
      (''ZonedDateTime'', ''dayjs.Dayjs''),
      (''TextBlob'', ''string''),
      (''UUID'', ''string'')]"

text \<open>\<^verbatim>\<open>typeMappings[jdlType] || jdlType\<close>: an own property of the table, else a property
  of \<^verbatim>\<open>Object.prototype\<close>, else (\<^verbatim>\<open>undefined\<close> is falsy) the argument itself. The
  strings of the table are not empty, hence truthy.\<close>

definition getTsType :: "jsval \<Rightarrow> jsval" where
  "getTsType jdlType =
     (let k = toPropertyKey jdlType
      in case map_of typeMappings k of
           Some t \<Rightarrow> if t = [] then jdlType else JStr t
         | None \<Rightarrow> if k \<in> set objectPrototypeKeys then JProtoMember k else jdlType)"

section \<open>The data model\<close>

text \<open>
  The objects of \<^verbatim>\<open>parseJdl\<close>. \<^verbatim>\<open>comment: null\<close> is \<open>None\<close>; the role of a relationship's
  endpoint is \<open>None\<close> where the optional group of the regular expression took no part
  (\<^verbatim>\<open>undefined\<close>). Entities, enums and endpoints all have a property \<^verbatim>\<open>name\<close>: the
  records call them \<open>name\<close>, \<open>enumName\<close> and \<open>endName\<close>. The property \<^verbatim>\<open>fields\<close> of an entity is
  \<open>entityFields\<close>, \<^verbatim>\<open>values\<close> of an enum is \<open>enumValues\<close>.
\<close>

record field =
  fieldName :: string
  fieldType :: string
  fieldTypeIsEnum :: bool
  fieldValidateRules :: "string list"
  comment :: "string option"

record entity =
  name :: string
  entityFields :: "field list"

record enumValue =
  valueName :: string

record enum =
  enumName :: string
  enumValues :: "enumValue list"

record endpoint =
  endName :: string
  endFieldName :: "string option"

record relationship =
  relType :: string
  relFrom :: endpoint
  relTo :: endpoint

record model =
  entities :: "entity list"
  enums :: "enum list"
  relationships :: "relationship list"

definition AUDIT_FIELDS :: "field list" where
  "AUDIT_FIELDS =
     [\<lparr>fieldName = ''createdBy'', fieldType = ''String'', fieldTypeIsEnum = False,
        fieldValidateRules = [], comment = None\<rparr>,
      \<lparr>fieldName = ''createdDate'', fieldType = ''Instant'', fieldTypeIsEnum = False,
        fieldValidateRules = [], comment = None\<rparr>,
      \<lparr>fieldName = ''lastModifiedBy'', fieldType = ''String'', fieldTypeIsEnum = False,
        fieldValidateRules = [], comment = None\<rparr>,
      \<lparr>fieldName = ''lastModifiedDate'', fieldType = ''Instant'', fieldTypeIsEnum = False,
        fieldValidateRules = [], comment = None\<rparr>]"

section \<open>The render context of an entity\<close>

text \<open>
  \<^verbatim>\<open>generateEntityFiles\<close> first stores \<^verbatim>\<open>tsType\<close> in every field of the entity, then
  builds \<^verbatim>\<open>entityConfig\<close>; the rest of the function renders templates and writes files,
  which is outside the model. \<^verbatim>\<open>helpers.toPascalCase\<close> is
  \<^verbatim>\<open>_.upperFirst(_.camelCase(str))\<close> of the lodash library and is a parameter here, as is
  the type of \<^verbatim>\<open>config\<close>. The three helper functions that \<^verbatim>\<open>...helpers\<close> copies into the
  context are not part of the record. The properties \<^verbatim>\<open>entity\<close> and \<^verbatim>\<open>relationships\<close> of
  the context are \<open>configEntity\<close> and \<open>configRelationships\<close>.
\<close>

record renderField = field +
  tsType :: jsval

record renderEntity =
  renderName :: string
  renderFields :: "renderField list"

record renderRelationship = relationship +
  otherEntityName :: string
  otherEntityNamePascalCase :: string
  otherEntityNamePlural :: string

record 'c entityConfig =
  configEntity :: renderEntity
  config :: 'c
  configRelationships :: "renderRelationship list"

definition withTsType :: "field \<Rightarrow> renderField" where
  "withTsType f = field.extend f (renderField.fields (getTsType (JStr (fieldType f))))"

definition annotateRelationship :: "(string \<Rightarrow> string) \<Rightarrow> relationship \<Rightarrow> renderRelationship" where
  "annotateRelationship toPascalCase rel =
     relationship.extend rel
       (renderRelationship.fields
          (endName (relTo rel))
          (toPascalCase (endName (relTo rel)))
          (toLowerCase (endName (relTo rel)) @ ''s''))"

definition generateEntityFiles ::
  "(string \<Rightarrow> string) \<Rightarrow> 'c \<Rightarrow> entity \<Rightarrow> relationship list \<Rightarrow> 'c entityConfig" where
  "generateEntityFiles toPascalCase cfg ent allRelationships =
     \<lparr>configEntity = \<lparr>renderName = name ent, renderFields = map withTsType (entityFields ent)\<rparr>,
      config = cfg,
      configRelationships =
        map (annotateRelationship toPascalCase)
          (filter (\<lambda>rel. endName (relFrom rel) = name ent) allRelationships)\<rparr>"

section \<open>The comment stripper\<close>

text \<open>
  \<^verbatim>\<open>jdlContent.replace(/\/\*[\s\S]*?\*\//g, '')\<close>. At a position that starts with the
  opening marker the lazy quantifier stops at the first closing marker that begins two
  characters later or more; the match is dropped and the search goes on behind it. Where
  no closing marker follows, there is no match at this position and the character stays.
\<close>

function stripBlockComments :: "string \<Rightarrow> string" where
  "stripBlockComments [] = []"
| "stripBlockComments (c # cs) =
     (if startsWith ''/*'' (c # cs) then
        (case indexOf ''*/'' (drop 2 (c # cs)) of
           Some k \<Rightarrow> stripBlockComments (drop (2 + k + 2) (c # cs))
         | None \<Rightarrow> c # stripBlockComments cs)
      else c # stripBlockComments cs)"
  by pat_completeness auto
termination
  by (relation "measure length") auto



section \<open>The positional comment check\<close>

text \<open>\<^verbatim>\<open>content.lastIndexOf(c, pos)\<close> for one character: the search runs backwards from
  position \<open>pos\<close>, that position included.\<close>

definition lastIndexOfChar :: "char \<Rightarrow> string \<Rightarrow> nat \<Rightarrow> nat option" where
  "lastIndexOfChar c s pos =
     (let t = take (Suc pos) s; behind = takeWhile (\<lambda>x. x \<noteq> c) (rev t)
      in if length behind = length t then None else Some (length t - length behind - 1))"

definition isCommented :: "string \<Rightarrow> nat \<Rightarrow> bool" where
  "isCommented content index =
     (let lineStart = (case lastIndexOfChar newline content index of
                         None \<Rightarrow> 0
                       | Some lastNewline \<Rightarrow> lastNewline + 1);
          line = substring content lineStart index
      in startsWith ''//'' (trim line))"

section \<open>The regular expressions\<close>

text \<open>
  A regular expression is modelled by the function that matches it at the start of a
  string and returns the captures and the text behind the match. The pieces are matched
  greedily and without going back. That is what the backtracking matcher finds for these
  expressions: wherever a quantified class is followed by another piece, no character of
  the class can start that piece (\<^verbatim>\<open>\s\<close> against \<^verbatim>\<open>\w\<close>, a brace, a parenthesis or a
  letter; \<^verbatim>\<open>\w\<close> against \<^verbatim>\<open>\s\<close>, a brace or a parenthesis; \<^verbatim>\<open>[^}]\<close> against the closing
  brace), so a shorter run never leads to a match that the longest run does not.
\<close>

text \<open>A literal piece.\<close>

definition lit :: "string \<Rightarrow> string \<Rightarrow> string option" where
  "lit p s = (if startsWith p s then Some (drop (length p) s) else None)"

text \<open>A class with \<^verbatim>\<open>+\<close>, and with \<^verbatim>\<open>*\<close>.\<close>

definition many1 :: "(char \<Rightarrow> bool) \<Rightarrow> string \<Rightarrow> (string \<times> string) option" where
  "many1 P s = (if takeWhile P s = [] then None else Some (takeWhile P s, dropWhile P s))"

definition many :: "(char \<Rightarrow> bool) \<Rightarrow> string \<Rightarrow> string" where
  "many P s = dropWhile P s"

text \<open>An alternation of literals: the first alternative that fits. The four
  cardinalities are no prefixes of one another, so at most one fits.\<close>

fun altLit :: "string list \<Rightarrow> string \<Rightarrow> (string \<times> string) option" where
  "altLit [] s = None"
| "altLit (p # ps) s = (if startsWith p s then Some (p, drop (length p) s) else altLit ps s)"

text \<open>\<^verbatim>\<open>\s+(\w+)\s*\{([^}]+)\}\<close>, the part that the enum and the entity expression share
  behind their keyword.\<close>

definition namedBlock :: "string \<Rightarrow> ((string \<times> string) \<times> string) option" where
  "namedBlock s =
     do {
       (sp, r1) \<leftarrow> many1 isSpace s;
       (n, r2) \<leftarrow> many1 isWord r1;
       r3 \<leftarrow> lit ''{'' (many isSpace r2);
       (b, r4) \<leftarrow> many1 (\<lambda>c. c \<noteq> CHR ''}'') r3;
       r5 \<leftarrow> lit ''}'' r4;
       Some ((n, b), r5)
     }"

text \<open>\<^verbatim>\<open>/enum\s+(\w+)\s*\{([^}]+)\}/g\<close>\<close>

definition enumRegex :: "string \<Rightarrow> ((string \<times> string) \<times> string) option" where
  "enumRegex s = do { r \<leftarrow> lit ''enum'' s; namedBlock r }"

text \<open>\<^verbatim>\<open>/(?:@EnableAudit\s+)?entity\s+(\w+)\s*\{([^}]+)\}/g\<close>: the optional group is tried
  first, and the expression without it when that attempt fails.\<close>

definition entityRegex :: "string \<Rightarrow> ((string \<times> string) \<times> string) option" where
  "entityRegex s =
     (case do { r0 \<leftarrow> lit ''@EnableAudit'' s;
                (sp, r1) \<leftarrow> many1 isSpace r0;
                r2 \<leftarrow> lit ''entity'' r1;
                namedBlock r2 } of
        Some m \<Rightarrow> Some m
      | None \<Rightarrow> do { r \<leftarrow> lit ''entity'' s; namedBlock r })"

text \<open>\<^verbatim>\<open>(?:\((\w+)\))?\<close>: the group with its capture, or nothing (the capture stays
  \<^verbatim>\<open>undefined\<close>) where the group does not fit. It never fails.\<close>

definition optRole :: "string \<Rightarrow> (string option \<times> string) option" where
  "optRole s =
     (case do { r1 \<leftarrow> lit ''('' s;
                (w, r2) \<leftarrow> many1 isWord r1;
                r3 \<leftarrow> lit '')'' r2;
                Some (Some w, r3) } of
        Some m \<Rightarrow> Some m
      | None \<Rightarrow> Some (None, s))"

text \<open>\<^verbatim>\<open>/relationship\s+(OneToOne|ManyToOne|OneToMany|ManyToMany)\s*\{\s*(\w+)(?:\((\w+)\))?\s+to\s+(\w+)(?:\((\w+)\))?\s*\}/g\<close>\<close>

definition relationshipRegex ::
  "string \<Rightarrow> ((string \<times> string \<times> string option \<times> string \<times> string option) \<times> string) option" where
  "relationshipRegex s =
     do {
       r1 \<leftarrow> lit ''relationship'' s;
       (sp1, r2) \<leftarrow> many1 isSpace r1;
       (ty, r3) \<leftarrow> altLit [''OneToOne'', ''ManyToOne'', ''OneToMany'', ''ManyToMany''] r2;
       r4 \<leftarrow> lit ''{'' (many isSpace r3);
       (fromName, r5) \<leftarrow> many1 isWord (many isSpace r4);
       (fromField, r6) \<leftarrow> optRole r5;
       (sp2, r7) \<leftarrow> many1 isSpace r6;
       r8 \<leftarrow> lit ''to'' r7;
       (sp3, r9) \<leftarrow> many1 isSpace r8;
       (toName, r10) \<leftarrow> many1 isWord r9;
       (toField, r11) \<leftarrow> optRole r10;
       r12 \<leftarrow> lit ''}'' (many isSpace r11);
       Some ((ty, fromName, fromField, toName, toField), r12)
     }"

text \<open>\<^verbatim>\<open>/^(\w+)\s+([\w<>]+)(.*)/\<close>, matched against one line from its start.\<close>

definition fieldRegex :: "string \<Rightarrow> (string \<times> string \<times> string) option" where
  "fieldRegex line =
     do {
       (n, r1) \<leftarrow> many1 isWord line;
       (sp, r2) \<leftarrow> many1 isSpace r1;
       (t, r3) \<leftarrow> many1 (\<lambda>c. isWord c \<or> c = CHR ''<'' \<or> c = CHR ''>'') r2;
       Some (n, t, takeWhile isDot r3)
     }"

subsection \<open>\<^verbatim>\<open>exec\<close> on a global regular expression\<close>

text \<open>
  The result of \<^verbatim>\<open>regex.exec(content)\<close>: where the match starts (\<^verbatim>\<open>index\<close>), where it
  ends (the new \<^verbatim>\<open>lastIndex\<close> of the expression), the matched text (element 0) and the
  captures.
\<close>

record 'g regexMatch =
  matchIndex :: nat
  matchEnd :: nat
  matchText :: string
  captures :: 'g

text \<open>The leftmost position, from \<open>i\<close> on, where the expression matches.\<close>

fun findMatch :: "(string \<Rightarrow> ('g \<times> string) option) \<Rightarrow> nat \<Rightarrow> string \<Rightarrow> (nat \<times> 'g \<times> string) option" where
  "findMatch re i [] = map_option (Pair i) (re [])"
| "findMatch re i (c # cs) =
     (case re (c # cs) of
        Some m \<Rightarrow> Some (i, m)
      | None \<Rightarrow> findMatch re (Suc i) cs)"

definition exec :: "(string \<Rightarrow> ('g \<times> string) option) \<Rightarrow> string \<Rightarrow> nat \<Rightarrow> 'g regexMatch option" where
  "exec re content lastIndex =
     (if length content < lastIndex then None
      else case findMatch re lastIndex (drop lastIndex content) of
             None \<Rightarrow> None
           | Some (i, g, rest) \<Rightarrow>
               Some \<lparr>matchIndex = i,
                     matchEnd = length content - length rest,
                     matchText = take (length content - length rest - i) (drop i content),
                     captures = g\<rparr>)"

section \<open>Objects filled by assignment\<close>

text \<open>
  \<^verbatim>\<open>enums\<close> and \<^verbatim>\<open>entities\<close> start as \<^verbatim>\<open>{}\<close> and are filled by \<^verbatim>\<open>obj[key] = value\<close>. The own
  properties are kept in creation order; an assignment to an existing key keeps its
  place. An assignment to the key \<^verbatim>\<open>__proto__\<close> runs the setter of \<^verbatim>\<open>Object.prototype\<close>:
  it creates no own property and makes the value the prototype of the object, which is
  \<open>None\<close> as long as the prototype is \<^verbatim>\<open>Object.prototype\<close> itself.
\<close>

record 'v jsobject =
  ownProps :: "(string \<times> 'v) list"
  protoObj :: "'v option"

definition emptyObject :: "'v jsobject" where
  "emptyObject = \<lparr>ownProps = [], protoObj = None\<rparr>"

fun setOwn :: "string \<Rightarrow> 'v \<Rightarrow> (string \<times> 'v) list \<Rightarrow> (string \<times> 'v) list" where
  "setOwn k v [] = [(k, v)]"
| "setOwn k v (p # ps) = (if fst p = k then (k, v) # ps else p # setOwn k v ps)"

definition assign :: "'v jsobject \<Rightarrow> string \<Rightarrow> 'v \<Rightarrow> 'v jsobject" where
  "assign obj k v =
     (if k = ''__proto__'' then obj\<lparr>protoObj := Some v\<rparr>
      else obj\<lparr>ownProps := setOwn k v (ownProps obj)\<rparr>)"

text \<open>
  \<^verbatim>\<open>Object.values(obj)\<close>: the own properties, those whose key is an array index (a
  canonical decimal numeral below \<open>2^32 - 1\<close>) first, in ascending order, then the others
  in creation order.
\<close>

definition isDigit :: "char \<Rightarrow> bool" where
  "isDigit c \<longleftrightarrow> c \<in> set ''0123456789''"

definition numericValue :: "string \<Rightarrow> int" where
  "numericValue k = foldl (\<lambda>n c. 10 * n + (of_char c - 48)) 0 k"

definition isArrayIndex :: "string \<Rightarrow> bool" where
  "isArrayIndex k \<longleftrightarrow>
     k \<noteq> [] \<and> list_all isDigit k \<and> (k = ''0'' \<or> hd k \<noteq> CHR ''0'') \<and>
     length k \<le> 10 \<and> numericValue k < 4294967295"

definition objectValues :: "'v jsobject \<Rightarrow> 'v list" where
  "objectValues obj =
     map snd (sort_key (\<lambda>p. numericValue (fst p)) (filter (\<lambda>p. isArrayIndex (fst p)) (ownProps obj))
              @ filter (\<lambda>p. \<not> isArrayIndex (fst p)) (ownProps obj))"

text \<open>
  \<^verbatim>\<open>!!enums[key]\<close>: an own property holds an enum object, which is truthy. Otherwise the
  read goes to the prototype: an enum object stored through \<^verbatim>\<open>__proto__\<close>, with its
  properties \<^verbatim>\<open>name\<close> (a string, truthy unless empty) and \<^verbatim>\<open>values\<close> (an array, truthy),
  and behind it \<^verbatim>\<open>Object.prototype\<close>.
\<close>

definition truthyProp :: "enum jsobject \<Rightarrow> string \<Rightarrow> bool" where
  "truthyProp obj k =
     (case map_of (ownProps obj) k of
        Some v \<Rightarrow> True
      | None \<Rightarrow>
          (case protoObj obj of
             Some p \<Rightarrow> (k = ''name'' \<and> enumName p \<noteq> []) \<or> k = ''values'' \<or> k \<in> set objectPrototypeKeys
           | None \<Rightarrow> k \<in> set objectPrototypeKeys))"

section \<open>The parser\<close>

subsection \<open>Enums\<close>

text \<open>\<^verbatim>\<open>enumMatch[2].trim().split(',').map(v => v.trim().split('(')[0].trim()).filter(Boolean)\<close>;
  \<^verbatim>\<open>split\<close> never returns the empty array, so element 0 exists.\<close>

definition enumValueNames :: "string \<Rightarrow> string list" where
  "enumValueNames body =
     filter (\<lambda>v. v \<noteq> [])
       (map (\<lambda>v. trim (hd (splitChar CHR ''('' (trim v)))) (splitChar CHR '','' (trim body)))"

definition enumOfMatch :: "(string \<times> string) regexMatch \<Rightarrow> enum" where
  "enumOfMatch enumMatch =
     (let eName = fst (captures enumMatch);
          values = enumValueNames (snd (captures enumMatch))
      in \<lparr>enumName = eName, enumValues = map (\<lambda>v. \<lparr>valueName = v\<rparr>) values\<rparr>)"

text \<open>
  The objects \<^verbatim>\<open>enums\<close> and \<^verbatim>\<open>entities\<close> and the array \<^verbatim>\<open>relationships\<close> are \<open>enumsObj\<close>,
  \<open>entitiesObj\<close> and \<open>rels\<close> here; the properties of the returned object keep their names.
  The \<^verbatim>\<open>while\<close> loops call \<^verbatim>\<open>exec\<close> until it returns \<^verbatim>\<open>null\<close>; the expression's
  \<^verbatim>\<open>lastIndex\<close> is the loop's second argument. A loop that does not end has the value
  \<open>None\<close>.
\<close>

partial_function (option) enumLoop :: "string \<Rightarrow> nat \<Rightarrow> enum jsobject \<Rightarrow> enum jsobject option" where
  "enumLoop cleanContent lastIndex enumsObj =
     (case exec enumRegex cleanContent lastIndex of
        None \<Rightarrow> Some enumsObj
      | Some enumMatch \<Rightarrow>
          if isCommented cleanContent (matchIndex enumMatch)
          then enumLoop cleanContent (matchEnd enumMatch) enumsObj
          else enumLoop cleanContent (matchEnd enumMatch)
                 (assign enumsObj (fst (captures enumMatch)) (enumOfMatch enumMatch)))"

declare enumLoop.simps [code]

subsection \<open>Entities\<close>

text \<open>One field line: the match of the field expression, the inline comment cut off
  at the first \<^verbatim>\<open>//\<close>, the validation rules split at white space.\<close>

definition parseFieldLine :: "enum jsobject \<Rightarrow> string \<Rightarrow> field option" where
  "parseFieldLine enumsObj line =
     (case fieldRegex line of
        None \<Rightarrow> None
      | Some (fName, fType, restOfLine) \<Rightarrow>
          (let (validations, cmt) =
                 (case indexOf ''//'' restOfLine of
                    None \<Rightarrow> (restOfLine, None)
                  | Some commentIndex \<Rightarrow>
                      (trim (substring restOfLine 0 commentIndex),
                       Some (trim (substringFrom restOfLine (commentIndex + 2)))))
           in Some \<lparr>fieldName = fName,
                     fieldType = fType,
                     fieldTypeIsEnum = truthyProp enumsObj fType,
                     fieldValidateRules = filter (\<lambda>t. t \<noteq> []) (splitSpaces validations),
                     comment = cmt\<rparr>))"

text \<open>\<^verbatim>\<open>fieldLines.forEach\<close>: a line that matches pushes one field, any other line
  nothing.\<close>

fun parseFieldLines :: "enum jsobject \<Rightarrow> string list \<Rightarrow> field list" where
  "parseFieldLines enumsObj [] = []"
| "parseFieldLines enumsObj (line # fieldLines) =
     (case parseFieldLine enumsObj line of
        None \<Rightarrow> parseFieldLines enumsObj fieldLines
      | Some f \<Rightarrow> f # parseFieldLines enumsObj fieldLines)"

definition fieldLinesOf :: "string \<Rightarrow> string list" where
  "fieldLinesOf fieldsContent =
     filter (\<lambda>line. line \<noteq> [] \<and> \<not> startsWith ''//'' line)
       (map trim (splitChar newline fieldsContent))"

definition hasAuditAnnotation :: "(string \<times> string) regexMatch \<Rightarrow> bool" where
  "hasAuditAnnotation entityMatch = startsWith ''@EnableAudit'' (trim (matchText entityMatch))"

text \<open>The body of the entity loop. The message that \<^verbatim>\<open>console.log\<close> prints for an
  audited entity does not reach the returned model and is left out.\<close>

definition entityOfMatch :: "enum jsobject \<Rightarrow> (string \<times> string) regexMatch \<Rightarrow> entity" where
  "entityOfMatch enumsObj entityMatch =
     (let entityName = fst (captures entityMatch);
          fieldsContent = snd (captures entityMatch);
          declared = parseFieldLines enumsObj (fieldLinesOf fieldsContent)
      in \<lparr>name = entityName,
          entityFields =
            (if hasAuditAnnotation entityMatch then declared @ AUDIT_FIELDS else declared)\<rparr>)"

partial_function (option) entityLoop ::
  "string \<Rightarrow> enum jsobject \<Rightarrow> nat \<Rightarrow> entity jsobject \<Rightarrow> entity jsobject option" where
  "entityLoop cleanContent enumsObj lastIndex entitiesObj =
     (case exec entityRegex cleanContent lastIndex of
        None \<Rightarrow> Some entitiesObj
      | Some entityMatch \<Rightarrow>
          if isCommented cleanContent (matchIndex entityMatch)
          then entityLoop cleanContent enumsObj (matchEnd entityMatch) entitiesObj
          else entityLoop cleanContent enumsObj (matchEnd entityMatch)
                 (assign entitiesObj (fst (captures entityMatch)) (entityOfMatch enumsObj entityMatch)))"

declare entityLoop.simps [code]

subsection \<open>Relationships\<close>

definition relationshipOfMatch ::
  "(string \<times> string \<times> string option \<times> string \<times> string option) regexMatch \<Rightarrow> relationship" where
  "relationshipOfMatch relMatch =
     (case captures relMatch of
        (ty, fromName, fromField, toName, toField) \<Rightarrow>
          \<lparr>relType = ty,
           relFrom = \<lparr>endName = fromName, endFieldName = fromField\<rparr>,
           relTo = \<lparr>endName = toName, endFieldName = toField\<rparr>\<rparr>)"

partial_function (option) relationshipLoop ::
  "string \<Rightarrow> nat \<Rightarrow> relationship list \<Rightarrow> relationship list option" where
  "relationshipLoop cleanContent lastIndex rels =
     (case exec relationshipRegex cleanContent lastIndex of
        None \<Rightarrow> Some rels
      | Some relMatch \<Rightarrow>
          if isCommented cleanContent (matchIndex relMatch)
          then relationshipLoop cleanContent (matchEnd relMatch) rels
          else relationshipLoop cleanContent (matchEnd relMatch)
                 (rels @ [relationshipOfMatch relMatch]))"

declare relationshipLoop.simps [code]

subsection \<open>\<^verbatim>\<open>parseJdl\<close>\<close>

definition parseJdl :: "string \<Rightarrow> model option" where
  "parseJdl jdlContent =
     (let cleanContent = stripBlockComments jdlContent
      in do {
           enumsObj \<leftarrow> enumLoop cleanContent 0 emptyObject;
           entitiesObj \<leftarrow> entityLoop cleanContent enumsObj 0 emptyObject;
           rels \<leftarrow> relationshipLoop cleanContent 0 [];
           Some \<lparr>entities = objectValues entitiesObj,
                 enums = objectValues enumsObj,
                 relationships = rels\<rparr>
         })"

section \<open>The matches a loop visits\<close>

text \<open>
  For the proofs: the matches that successive calls of \<^verbatim>\<open>exec\<close> return, from a given
  \<^verbatim>\<open>lastIndex\<close> on, as a list, and what one turn of each loop does with a match. The list
  ends at a match that would not move \<^verbatim>\<open>lastIndex\<close> forward; the three expressions
  have no such match, since each of their matches is at least one character long.
\<close>

definition consuming :: "(string \<Rightarrow> ('g \<times> string) option) \<Rightarrow> bool" where
  "consuming re \<longleftrightarrow> (\<forall>s g rest. re s = Some (g, rest) \<longrightarrow> (\<exists>p. p \<noteq> [] \<and> s = p @ rest))"

function allMatches :: "(string \<Rightarrow> ('g \<times> string) option) \<Rightarrow> string \<Rightarrow> nat \<Rightarrow> 'g regexMatch list" where
  "allMatches re content lastIndex =
     (case exec re content lastIndex of
        None \<Rightarrow> []
      | Some m \<Rightarrow>
          if lastIndex < matchEnd m \<and> matchEnd m \<le> length content
          then m # allMatches re content (matchEnd m)
          else [m])"
  by pat_completeness auto
termination
  by (relation "measure (\<lambda>(re, content, lastIndex). length content - lastIndex)") auto

declare allMatches.simps [simp del]

definition enumStep :: "string \<Rightarrow> enum jsobject \<Rightarrow> (string \<times> string) regexMatch \<Rightarrow> enum jsobject" where
  "enumStep cleanContent enumsObj enumMatch =
     (if isCommented cleanContent (matchIndex enumMatch) then enumsObj
      else assign enumsObj (fst (captures enumMatch)) (enumOfMatch enumMatch))"

definition entityStep ::
  "string \<Rightarrow> enum jsobject \<Rightarrow> entity jsobject \<Rightarrow> (string \<times> string) regexMatch \<Rightarrow> entity jsobject" where
  "entityStep cleanContent enumsObj entitiesObj entityMatch =
     (if isCommented cleanContent (matchIndex entityMatch) then entitiesObj
      else assign entitiesObj (fst (captures entityMatch)) (entityOfMatch enumsObj entityMatch))"

definition relationshipStep ::
  "string \<Rightarrow> relationship list \<Rightarrow>
   (string \<times> string \<times> string option \<times> string \<times> string option) regexMatch \<Rightarrow> relationship list" where
  "relationshipStep cleanContent rels relMatch =
     (if isCommented cleanContent (matchIndex relMatch) then rels
      else rels @ [relationshipOfMatch relMatch])"

text \<open>The matches that a loop does not pass over.\<close>

definition uncommented :: "string \<Rightarrow> 'g regexMatch list \<Rightarrow> 'g regexMatch list" where
  "uncommented cleanContent ms = filter (\<lambda>m. \<not> isCommented cleanContent (matchIndex m)) ms"

text \<open>The object \<^verbatim>\<open>enums\<close> when the enum loop has ended.\<close>

definition enumsObjectOf :: "string \<Rightarrow> enum jsobject" where
  "enumsObjectOf cleanContent =
     foldl (enumStep cleanContent) emptyObject (allMatches enumRegex cleanContent 0)"



section \<open>The type mapper: properties\<close>

lemma getTsType_table:
  "map_of typeMappings t = Some ts \<Longrightarrow> getTsType (JStr t) = JStr ts"
  by (auto simp: getTsType_def typeMappings_def split: if_splits)

lemma getTsType_fallback:
  "map_of typeMappings t = None \<Longrightarrow> t \<notin> set objectPrototypeKeys \<Longrightarrow> getTsType (JStr t) = JStr t"
  by (simp add: getTsType_def)

lemma prototypeKeys_not_in_table:
  "list_all (\<lambda>t. map_of typeMappings t = None) objectPrototypeKeys"
  by code_simp

lemma getTsType_inherited:
  "t \<in> set objectPrototypeKeys \<Longrightarrow> getTsType (JStr t) = JProtoMember t"
  using prototypeKeys_not_in_table by (simp add: getTsType_def list_all_iff)

text \<open>
  C6. The mapper returns for every argument, and a key of the table is mapped to the
  table's string (\<open>getTsType_table\<close>). A name outside the table comes back unchanged only
  when it is not a property of \<^verbatim>\<open>Object.prototype\<close> (\<open>getTsType_fallback\<close>): for the type
  name \<^verbatim>\<open>toString\<close>, which is no key of the table, the lookup finds the inherited
  function, and the mapper returns that function instead of the string.
\<close>

theorem getTsType_toString:
  "map_of typeMappings ''toString'' = None \<and>
   getTsType (JStr ''toString'') = JProtoMember ''toString'' \<and>
   getTsType (JStr ''toString'') \<noteq> JStr ''toString''"
  by (simp add: getTsType_def typeMappings_def objectPrototypeKeys_def)

text \<open>
  C7. The mapper is idempotent: mapping the result of the mapper once more changes
  nothing, for a type name and for every other value the mapper can return.
\<close>

theorem getTsType_idempotent: "getTsType (getTsType t) = getTsType t"
  by (cases t)
    (auto simp: getTsType_def typeMappings_def objectPrototypeKeys_def
          split: option.splits if_splits)

section \<open>The render context: properties\<close>

lemma truncate_annotateRelationship [simp]:
  "relationship.truncate (annotateRelationship toPascalCase rel) = rel"
  by (cases rel) (simp add: annotateRelationship_def relationship.truncate_def relationship.extend_def)

lemma annotateRelationship_sel [simp]:
  "relFrom (annotateRelationship toPascalCase rel) = relFrom rel"
  "relTo (annotateRelationship toPascalCase rel) = relTo rel"
  "relType (annotateRelationship toPascalCase rel) = relType rel"
  "otherEntityName (annotateRelationship toPascalCase rel) = endName (relTo rel)"
  "otherEntityNamePascalCase (annotateRelationship toPascalCase rel) = toPascalCase (endName (relTo rel))"
  "otherEntityNamePlural (annotateRelationship toPascalCase rel) = toLowerCase (endName (relTo rel)) @ ''s''"
  by (cases rel; simp add: annotateRelationship_def relationship.extend_def renderRelationship.fields_def)+

text \<open>
  C3, as amended. The relationships of an entity's render context, with the three added
  properties taken off again, are exactly the relationships whose \<^verbatim>\<open>from.name\<close> is the
  entity's name, in their original order. Each carries the target's name, the
  Pascal-case form of that name, and as plural the lower-cased target name followed by
  \<^verbatim>\<open>s\<close>.
\<close>

theorem generateEntityFiles_relationships:
  "map relationship.truncate
     (configRelationships (generateEntityFiles toPascalCase cfg ent allRelationships))
     = filter (\<lambda>rel. endName (relFrom rel) = name ent) allRelationships
   \<and> (\<forall>r \<in> set (configRelationships (generateEntityFiles toPascalCase cfg ent allRelationships)).
        endName (relFrom r) = name ent \<and>
        otherEntityName r = endName (relTo r) \<and>
        otherEntityNamePascalCase r = toPascalCase (endName (relTo r)) \<and>
        otherEntityNamePlural r = toLowerCase (endName (relTo r)) @ ''s'')"
  by (auto simp: generateEntityFiles_def comp_def)

theorem generateEntityFiles_relationships_witness:
  "map relationship.truncate
     (configRelationships
        (generateEntityFiles (\<lambda>s. s) ()
           \<lparr>name = ''Order'', entityFields = []\<rparr>
           [\<lparr>relType = ''OneToMany'',
              relFrom = \<lparr>endName = ''Customer'', endFieldName = Some ''orders''\<rparr>,
              relTo = \<lparr>endName = ''Order'', endFieldName = Some ''customer''\<rparr>\<rparr>,
            \<lparr>relType = ''ManyToOne'',
              relFrom = \<lparr>endName = ''Order'', endFieldName = Some ''customer''\<rparr>,
              relTo = \<lparr>endName = ''Customer'', endFieldName = Some ''orders''\<rparr>\<rparr>,
            \<lparr>relType = ''ManyToMany'',
              relFrom = \<lparr>endName = ''Order'', endFieldName = None\<rparr>,
              relTo = \<lparr>endName = ''Tag'', endFieldName = None\<rparr>\<rparr>]))
   = [\<lparr>relType = ''ManyToOne'',
        relFrom = \<lparr>endName = ''Order'', endFieldName = Some ''customer''\<rparr>,
        relTo = \<lparr>endName = ''Customer'', endFieldName = Some ''orders''\<rparr>\<rparr>,
      \<lparr>relType = ''ManyToMany'',
        relFrom = \<lparr>endName = ''Order'', endFieldName = None\<rparr>,
        relTo = \<lparr>endName = ''Tag'', endFieldName = None\<rparr>\<rparr>]"
  using generateEntityFiles_relationships [of "\<lambda>s. s" "()" "\<lparr>name = ''Order'', entityFields = []\<rparr>"
     "[\<lparr>relType = ''OneToMany'',
        relFrom = \<lparr>endName = ''Customer'', endFieldName = Some ''orders''\<rparr>,
        relTo = \<lparr>endName = ''Order'', endFieldName = Some ''customer''\<rparr>\<rparr>,
       \<lparr>relType = ''ManyToOne'',
        relFrom = \<lparr>endName = ''Order'', endFieldName = Some ''customer''\<rparr>,
        relTo = \<lparr>endName = ''Customer'', endFieldName = Some ''orders''\<rparr>\<rparr>,
       \<lparr>relType = ''ManyToMany'',
        relFrom = \<lparr>endName = ''Order'', endFieldName = None\<rparr>,
        relTo = \<lparr>endName = ''Tag'', endFieldName = None\<rparr>\<rparr>]"]
  by simp

text \<open>
  C3 as stated fails: the plural is not the target name with a suffix. For the target
  \<^verbatim>\<open>Customer\<close> the context holds \<^verbatim>\<open>customers\<close>, not \<^verbatim>\<open>Customers\<close>.
\<close>

theorem generateEntityFiles_plural_counterexample:
  "map otherEntityNamePlural
     (configRelationships
        (generateEntityFiles (\<lambda>s. s) ()
           \<lparr>name = ''Order'', entityFields = []\<rparr>
           [\<lparr>relType = ''ManyToOne'',
              relFrom = \<lparr>endName = ''Order'', endFieldName = Some ''customer''\<rparr>,
              relTo = \<lparr>endName = ''Customer'', endFieldName = Some ''orders''\<rparr>\<rparr>]))
   \<noteq> [''Customer'' @ ''s'']"
  by code_simp

section \<open>The comment stripper: properties\<close>













section \<open>The regular expressions consume their match\<close>

lemma startsWith_take: "startsWith p s \<longleftrightarrow> take (length p) s = p"
  by (induction p s rule: startsWith.induct) auto

lemma startsWith_append_iff: "startsWith p s \<longleftrightarrow> (\<exists>r. s = p @ r)"
  unfolding startsWith_take by (metis append_eq_conv_conj append_take_drop_id)

lemma lit_Some: "lit p s = Some r \<longleftrightarrow> s = p @ r"
  unfolding lit_def startsWith_take
  by (metis append_eq_conv_conj append_take_drop_id option.distinct(1) option.inject)

lemma many1_Some: "many1 P s = Some (a, r) \<Longrightarrow> s = a @ r \<and> a \<noteq> []"
  by (auto simp: many1_def split: if_splits)

lemma many_suffix: "s = takeWhile P s @ many P s"
  unfolding many_def by simp

lemma altLit_Some: "altLit ps s = Some (p, r) \<Longrightarrow> s = p @ r \<and> p \<in> set ps"
  by (induction ps) (auto simp: startsWith_append_iff split: if_splits)

lemma optRole_suffix: "optRole s = Some (x, r) \<Longrightarrow> \<exists>a. s = a @ r"
  unfolding optRole_def
  by (auto simp: lit_Some bind_eq_Some_conv split: option.splits dest!: many1_Some)

lemma namedBlock_SomeD:
  assumes "namedBlock s = Some ((n, b), r)"
  shows "\<exists>sp sp'. s = sp @ n @ sp' @ ''{'' @ b @ ''}'' @ r \<and> sp \<noteq> [] \<and> n \<noteq> [] \<and> b \<noteq> []"
proof -
  from assms obtain sp r1 r2 r3 r4 where
    a: "many1 isSpace s = Some (sp, r1)" and b: "many1 isWord r1 = Some (n, r2)"
    and c: "lit ''{'' (many isSpace r2) = Some r3"
    and d: "many1 (\<lambda>c. c \<noteq> CHR ''}'') r3 = Some (b, r4)" and e: "lit ''}'' r4 = Some r"
    by (auto simp: namedBlock_def bind_eq_Some_conv)
  have "r2 = takeWhile isSpace r2 @ ''{'' @ r3"
    using c many_suffix [of r2 isSpace] by (simp add: lit_Some)
  then have "s = sp @ n @ takeWhile isSpace r2 @ ''{'' @ b @ ''}'' @ r"
    using many1_Some [OF a] many1_Some [OF b] many1_Some [OF d] e by (simp add: lit_Some)
  then show ?thesis
    using many1_Some [OF a] many1_Some [OF b] many1_Some [OF d] by blast
qed

lemma consuming_enumRegex: "consuming enumRegex"
  unfolding consuming_def
proof (intro allI impI)
  fix s g rest assume "enumRegex s = Some (g, rest)"
  then obtain r where "s = ''enum'' @ r" "namedBlock r = Some (g, rest)"
    by (auto simp: enumRegex_def bind_eq_Some_conv lit_Some)
  then show "\<exists>p. p \<noteq> [] \<and> s = p @ rest"
    using namedBlock_SomeD [of r "fst g" "snd g" rest] by (metis append_assoc append_is_Nil_conv prod.collapse)
qed

lemma entityRegex_SomeD:
  assumes "entityRegex s = Some (g, rest)"
  shows "(\<exists>sp r. sp \<noteq> [] \<and> s = ''@EnableAudit'' @ sp @ ''entity'' @ r \<and> namedBlock r = Some (g, rest))
       \<or> (\<exists>r. s = ''entity'' @ r \<and> namedBlock r = Some (g, rest))"
  using assms unfolding entityRegex_def
  by (auto simp: bind_eq_Some_conv lit_Some split: option.splits dest!: many1_Some)

lemma consuming_entityRegex: "consuming entityRegex"
  unfolding consuming_def
proof (intro allI impI)
  fix s g rest assume "entityRegex s = Some (g, rest)"
  from entityRegex_SomeD [OF this] obtain q r where "s = q @ r" "namedBlock r = Some (g, rest)"
    by (metis append_assoc)
  then show "\<exists>p. p \<noteq> [] \<and> s = p @ rest"
    using namedBlock_SomeD [of r "fst g" "snd g" rest] by (metis append_assoc append_is_Nil_conv prod.collapse)
qed

lemma sfx_lit: "lit p s = Some r \<Longrightarrow> \<exists>a. s = a @ r"
  by (auto simp: lit_Some)

lemma sfx_many1: "many1 P s = Some (x, r) \<Longrightarrow> \<exists>a. s = a @ r"
  by (auto dest: many1_Some)

lemma sfx_many: "\<exists>a. s = a @ many P s"
  using many_suffix by blast

lemma sfx_altLit: "altLit ps s = Some (p, r) \<Longrightarrow> \<exists>a. s = a @ r"
  by (auto dest: altLit_Some)

lemma sfx_trans: "\<exists>a. s = a @ r \<Longrightarrow> \<exists>a. r = a @ t \<Longrightarrow> \<exists>a. s = a @ (t::string)"
  by (metis append_assoc)

lemma relationshipRegex_SomeD:
  assumes "relationshipRegex s = Some (g, rest)"
  shows "\<exists>p. s = ''relationship'' @ p @ rest"
proof -
  from assms obtain r1 where r1: "lit ''relationship'' s = Some r1" and "\<exists>a. r1 = a @ rest"
    unfolding relationshipRegex_def
    apply (clarsimp simp: bind_eq_Some_conv simp del: altLit.simps)
    subgoal premises prems
      apply (rule prems(1))
      apply (rule sfx_trans [OF sfx_many1 [OF prems(3)]])
      apply (rule sfx_trans [OF sfx_altLit [OF prems(4)]])
      apply (rule sfx_trans [OF sfx_many])
      apply (rule sfx_trans [OF sfx_lit [OF prems(5)]])
      apply (rule sfx_trans [OF sfx_many])
      apply (rule sfx_trans [OF sfx_many1 [OF prems(6)]])
      apply (rule sfx_trans [OF optRole_suffix [OF prems(7)]])
      apply (rule sfx_trans [OF sfx_many1 [OF prems(8)]])
      apply (rule sfx_trans [OF sfx_lit [OF prems(9)]])
      apply (rule sfx_trans [OF sfx_many1 [OF prems(10)]])
      apply (rule sfx_trans [OF sfx_many1 [OF prems(11)]])
      apply (rule sfx_trans [OF optRole_suffix [OF prems(12)]])
      apply (rule sfx_trans [OF sfx_many])
      apply (rule sfx_lit [OF prems(13)])
      done
    done
  then show ?thesis by (auto simp: lit_Some)
qed

lemma consuming_relationshipRegex: "consuming relationshipRegex"
  unfolding consuming_def
proof (intro allI impI)
  fix s g rest assume "relationshipRegex s = Some (g, rest)"
  from relationshipRegex_SomeD [OF this] obtain p where "s = (''relationship'' @ p) @ rest"
    by auto
  then show "\<exists>p. p \<noteq> [] \<and> s = p @ rest"
    by (metis append_is_Nil_conv list.distinct(1))
qed

section \<open>The loops as folds over the matches\<close>

lemma findMatch_Some:
  "findMatch re i s = Some (j, g, rest) \<Longrightarrow>
   \<exists>k \<le> length s. j = i + k \<and> re (drop k s) = Some (g, rest) \<and> (\<forall>k' < k. re (drop k' s) = None)"
proof (induction s arbitrary: i)
  case Nil
  then show ?case by auto
next
  case (Cons c s)
  show ?case
  proof (cases "re (c # s)")
    case None
    with Cons.prems have "findMatch re (Suc i) s = Some (j, g, rest)" by simp
    from Cons.IH [OF this] obtain k where k: "k \<le> length s" "j = Suc i + k"
      "re (drop k s) = Some (g, rest)" "\<forall>k' < k. re (drop k' s) = None" by blast
    have "\<forall>k' < Suc k. re (drop k' (c # s)) = None"
    proof (intro allI impI)
      fix k' assume "k' < Suc k"
      then show "re (drop k' (c # s)) = None"
        using None k(4) by (cases k') auto
    qed
    then show ?thesis using k by (intro exI [of _ "Suc k"]) auto
  next
    case (Some m)
    with Cons.prems show ?thesis by (intro exI [of _ 0]) auto
  qed
qed

lemma exec_Some:
  assumes "consuming re" and "exec re content lastIndex = Some m"
  shows "lastIndex \<le> matchIndex m \<and> matchIndex m < matchEnd m \<and> matchEnd m \<le> length content \<and>
         re (drop (matchIndex m) content) = Some (captures m, drop (matchEnd m) content) \<and>
         drop (matchIndex m) content = matchText m @ drop (matchEnd m) content \<and>
         length (matchText m) = matchEnd m - matchIndex m \<and>
         (\<forall>k. lastIndex \<le> k \<and> k < matchIndex m \<longrightarrow> re (drop k content) = None)"
proof -
  from assms(2) obtain i g rest where
    le: "lastIndex \<le> length content"
    and f: "findMatch re lastIndex (drop lastIndex content) = Some (i, g, rest)"
    and m: "m = \<lparr>matchIndex = i, matchEnd = length content - length rest,
                 matchText = take (length content - length rest - i) (drop i content),
                 captures = g\<rparr>"
    by (auto simp: exec_def split: if_splits option.splits)
  from findMatch_Some [OF f] obtain k where k: "k \<le> length content - lastIndex" "i = lastIndex + k"
    "re (drop (lastIndex + k) content) = Some (g, rest)"
    "\<forall>k' < k. re (drop (lastIndex + k') content) = None"
    by (auto simp: add.commute)
  from assms(1) k(3) obtain p where p: "p \<noteq> []" "drop i content = p @ rest"
    unfolding consuming_def k(2) by blast
  have len: "length content - i = length p + length rest"
    using arg_cong [OF p(2), of length] by simp
  have i: "i \<le> length content" using k le by simp
  have e: "length content - length rest = i + length p" using len i by simp
  have "drop (i + length p) content = rest"
    using p(2) by (metis append_eq_conv_conj drop_drop add.commute)
  moreover have "take (length p) (drop i content) = p" using p(2) by simp
  moreover have "\<forall>k'. lastIndex \<le> k' \<and> k' < i \<longrightarrow> re (drop k' content) = None"
  proof (intro allI impI)
    fix k' assume "lastIndex \<le> k' \<and> k' < i"
    then have "k' - lastIndex < k" "lastIndex + (k' - lastIndex) = k'" using k(2) by auto
    then show "re (drop k' content) = None" using k(4) by metis
  qed
  ultimately show ?thesis
    using p k i e m by simp
qed

lemma allMatches_None: "exec re content lastIndex = None \<Longrightarrow> allMatches re content lastIndex = []"
  by (simp add: allMatches.simps)

lemma allMatches_Some:
  "consuming re \<Longrightarrow> exec re content lastIndex = Some m \<Longrightarrow>
   allMatches re content lastIndex = m # allMatches re content (matchEnd m)"
  using exec_Some [of re content lastIndex m] by (subst allMatches.simps) simp

lemma loop_fold:
  assumes c: "consuming re"
    and eq: "\<And>lastIndex acc. loop lastIndex acc =
               (case exec re content lastIndex of
                  None \<Rightarrow> Some acc
                | Some m \<Rightarrow> loop (matchEnd m) (step acc m))"
  shows "loop lastIndex acc = Some (foldl step acc (allMatches re content lastIndex))"
  using c eq
proof (induction re content lastIndex arbitrary: acc rule: allMatches.induct)
  case (1 re content lastIndex)
  show ?case
  proof (cases "exec re content lastIndex")
    case None
    then show ?thesis using "1.prems"(2) [of lastIndex acc] by (simp add: allMatches_None)
  next
    case (Some m)
    have g: "lastIndex < matchEnd m \<and> matchEnd m \<le> length content"
      using exec_Some [OF "1.prems"(1) Some] by simp
    have "loop (matchEnd m) (step acc m)
            = Some (foldl step (step acc m) (allMatches re content (matchEnd m)))"
      using "1.IH" [OF Some g "1.prems"(1) "1.prems"(2)] .
    then show ?thesis
      using "1.prems"(2) [of lastIndex acc] Some allMatches_Some [OF "1.prems"(1) Some] by simp
  qed
qed

lemma enumLoop_fold:
  "enumLoop cleanContent lastIndex enumsObj
     = Some (foldl (enumStep cleanContent) enumsObj (allMatches enumRegex cleanContent lastIndex))"
  by (rule loop_fold [OF consuming_enumRegex])
     (subst enumLoop.simps, simp add: enumStep_def split: option.splits)

lemma entityLoop_fold:
  "entityLoop cleanContent enumsObj lastIndex entitiesObj
     = Some (foldl (entityStep cleanContent enumsObj) entitiesObj
               (allMatches entityRegex cleanContent lastIndex))"
  by (rule loop_fold [OF consuming_entityRegex])
     (subst entityLoop.simps, simp add: entityStep_def split: option.splits)

lemma relationshipLoop_fold:
  "relationshipLoop cleanContent lastIndex rels
     = Some (foldl (relationshipStep cleanContent) rels
               (allMatches relationshipRegex cleanContent lastIndex))"
  by (rule loop_fold [OF consuming_relationshipRegex])
     (subst relationshipLoop.simps, simp add: relationshipStep_def split: option.splits)

lemma parseJdl_eq:
  "parseJdl jdlContent =
     (let cleanContent = stripBlockComments jdlContent;
          enumsObj = foldl (enumStep cleanContent) emptyObject (allMatches enumRegex cleanContent 0)
      in Some \<lparr>entities = objectValues
                   (foldl (entityStep cleanContent enumsObj) emptyObject
                      (allMatches entityRegex cleanContent 0)),
                enums = objectValues enumsObj,
                relationships = foldl (relationshipStep cleanContent) []
                                  (allMatches relationshipRegex cleanContent 0)\<rparr>)"
  by (simp add: parseJdl_def enumLoop_fold entityLoop_fold relationshipLoop_fold Let_def)

section \<open>\<^verbatim>\<open>parseJdl\<close> returns\<close>





section \<open>What the loops store\<close>


lemma set_setOwn: "set (setOwn k v ps) \<subseteq> insert (k, v) (set ps)"
  by (induction ps) auto

lemma map_of_setOwn: "map_of (setOwn k v ps) = (map_of ps)(k \<mapsto> v)"
  by (induction ps) (auto simp: fun_eq_iff)


lemma ownProps_assign:
  "ownProps (assign obj k v) = (if k = ''__proto__'' then ownProps obj else setOwn k v (ownProps obj))"
  by (simp add: assign_def)


lemma fold_assign_props:
  assumes step: "\<And>acc m. step acc m = (if skip m then acc else assign acc (key m) (val m))"
  shows "(k, v) \<in> set (ownProps (foldl step acc ms)) \<Longrightarrow>
         (k, v) \<in> set (ownProps acc) \<or> (\<exists>m \<in> set ms. \<not> skip m \<and> k = key m \<and> v = val m)"
proof (induction ms arbitrary: acc)
  case Nil
  then show ?case by simp
next
  case (Cons m ms)
  from Cons.IH [of "step acc m"] Cons.prems
  consider "(k, v) \<in> set (ownProps (step acc m))" | "\<exists>m \<in> set ms. \<not> skip m \<and> k = key m \<and> v = val m"
    by auto
  then show ?case
  proof cases
    case 1
    then show ?thesis
      using set_setOwn [of "key m" "val m" "ownProps acc"]
      by (auto simp: step ownProps_assign split: if_splits)
  next
    case 2
    then show ?thesis by auto
  qed
qed




lemma isSpace_simps [simp]:
  "\<not> isSpace CHR ''@''" "\<not> isSpace CHR ''e''" "\<not> isSpace CHR ''}''" "\<not> isSpace CHR ''{''"
  "\<not> isSpace CHR ''/''" "\<not> isSpace CHR ''r''"
  by (simp_all add: isSpace_def)




section \<open>Entities and their audit fields\<close>

lemma enumLoop_enumsObjectOf:
  "enumLoop cleanContent 0 emptyObject = Some (enumsObjectOf cleanContent)"
  by (simp add: enumLoop_fold enumsObjectOf_def)

lemma parseJdl_Some:
  "parseJdl jdlContent =
     Some \<lparr>entities = objectValues
                   (foldl (entityStep (stripBlockComments jdlContent)
                             (enumsObjectOf (stripBlockComments jdlContent)))
                      emptyObject (allMatches entityRegex (stripBlockComments jdlContent) 0)),
            enums = objectValues (enumsObjectOf (stripBlockComments jdlContent)),
            relationships = foldl (relationshipStep (stripBlockComments jdlContent)) []
                              (allMatches relationshipRegex (stripBlockComments jdlContent) 0)\<rparr>"
  by (simp add: parseJdl_eq Let_def enumsObjectOf_def)





section \<open>Comments\<close>

lemma fold_skip_filter:
  assumes "\<And>acc m. step acc m = (if skip m then acc else step' acc m)"
  shows "foldl step acc ms = foldl step' acc (filter (\<lambda>m. \<not> skip m) ms)"
  by (induction ms arbitrary: acc) (simp_all add: assms)

lemma fold_snoc_map: "foldl (\<lambda>acc m. acc @ [f m]) acc ms = acc @ map f ms"
  by (induction ms arbitrary: acc) simp_all

lemma parseJdl_uncommented:
  "parseJdl jdlContent =
     Some \<lparr>entities = objectValues
              (foldl (\<lambda>entitiesObj em.
                        assign entitiesObj (fst (captures em))
                          (entityOfMatch (enumsObjectOf (stripBlockComments jdlContent)) em))
                 emptyObject
                 (uncommented (stripBlockComments jdlContent)
                    (allMatches entityRegex (stripBlockComments jdlContent) 0))),
            enums = objectValues
              (foldl (\<lambda>enumsObj em. assign enumsObj (fst (captures em)) (enumOfMatch em))
                 emptyObject
                 (uncommented (stripBlockComments jdlContent)
                    (allMatches enumRegex (stripBlockComments jdlContent) 0))),
            relationships = map relationshipOfMatch
              (uncommented (stripBlockComments jdlContent)
                 (allMatches relationshipRegex (stripBlockComments jdlContent) 0))\<rparr>"
proof -
  let ?c = "stripBlockComments jdlContent"
  have 1: "foldl (entityStep ?c (enumsObjectOf ?c)) emptyObject (allMatches entityRegex ?c 0)
        = foldl (\<lambda>entitiesObj em. assign entitiesObj (fst (captures em))
                    (entityOfMatch (enumsObjectOf ?c) em))
            emptyObject (uncommented ?c (allMatches entityRegex ?c 0))"
    unfolding uncommented_def
    by (rule fold_skip_filter) (simp add: entityStep_def)
  have 2: "enumsObjectOf ?c
        = foldl (\<lambda>enumsObj em. assign enumsObj (fst (captures em)) (enumOfMatch em))
            emptyObject (uncommented ?c (allMatches enumRegex ?c 0))"
    unfolding uncommented_def enumsObjectOf_def
    by (rule fold_skip_filter) (simp add: enumStep_def)
  have "foldl (relationshipStep ?c) [] (allMatches relationshipRegex ?c 0)
        = foldl (\<lambda>rels m. rels @ [relationshipOfMatch m]) []
            (uncommented ?c (allMatches relationshipRegex ?c 0))"
    unfolding uncommented_def
    by (rule fold_skip_filter) (simp add: relationshipStep_def)
  then have 3: "foldl (relationshipStep ?c) [] (allMatches relationshipRegex ?c 0)
        = map relationshipOfMatch (uncommented ?c (allMatches relationshipRegex ?c 0))"
    by (simp add: fold_snoc_map)
  show ?thesis
    unfolding parseJdl_Some 1 3 using 2 by simp
qed


lemma startsWith_trim:
  assumes "startsWith ''//'' (trimStart line)"
  shows "startsWith ''//'' (trim line)"
proof -
  from assms obtain r where r: "trimStart line = ''//'' @ r"
    by (auto simp: startsWith_append_iff)
  have "\<exists>x. dropWhile isSpace (rev r @ ''//'') = x @ ''//''"
    by (cases "\<forall>c \<in> set (rev r). isSpace c") (auto simp: dropWhile_append)
  then obtain x where "dropWhile isSpace (rev r @ ''//'') = x @ ''//''" by blast
  then have "trim line = ''//'' @ rev x"
    by (simp add: trim_def trimEnd_def r)
  then show ?thesis by (simp add: startsWith_append_iff)
qed

lemma lastIndexOfChar_line:
  assumes "pre = [] \<or> last pre = c" and "c \<notin> set line" and "rest \<noteq> []" and "hd rest \<noteq> c"
  shows "(case lastIndexOfChar c (pre @ line @ rest) (length pre + length line) of
            None \<Rightarrow> 0 | Some j \<Rightarrow> j + 1) = length pre"
proof -
  obtain x rest' where rest: "rest = x # rest'" using assms(3) by (cases rest) auto
  have x: "x \<noteq> c" using assms(4) rest by simp
  have t: "take (Suc (length pre + length line)) (pre @ line @ rest) = pre @ line @ [x]"
    by (simp add: rest)
  have tw: "takeWhile (\<lambda>y. y \<noteq> c) (rev (pre @ line @ [x]))
              = x # rev line @ takeWhile (\<lambda>y. y \<noteq> c) (rev pre)"
    using x assms(2) by (simp add: takeWhile_append)
  show ?thesis
  proof (cases "pre = []")
    case True
    then show ?thesis
      unfolding lastIndexOfChar_def t Let_def tw by simp
  next
    case False
    then have "last pre = c" using assms(1) by simp
    then have "takeWhile (\<lambda>y. y \<noteq> c) (rev pre) = []"
      using False by (cases "rev pre") (auto simp: last_rev [symmetric] hd_rev)
    then show ?thesis
      unfolding lastIndexOfChar_def t Let_def tw using False by (cases pre) auto
  qed
qed

lemma isCommented_line:
  assumes "pre = [] \<or> last pre = newline" and "newline \<notin> set line"
    and "rest \<noteq> []" and "hd rest \<noteq> newline" and "startsWith ''//'' (trimStart line)"
  shows "isCommented (pre @ line @ rest) (length pre + length line)"
proof -
  have "substring (pre @ line @ rest) (length pre) (length pre + length line) = line"
    by (simp add: substring_def Let_def min_def max_def)
  then show ?thesis
    unfolding isCommented_def Let_def lastIndexOfChar_line [OF assms(1-4)]
    using startsWith_trim [OF assms(5)] by simp
qed












section \<open>An annotation in a line comment\<close>

lemma isWord_not_isSpace: "isWord c \<Longrightarrow> \<not> isSpace c"
  by (auto simp: isWord_def isSpace_def)

lemma isWord_simps [simp]: "\<not> isWord CHR ''{''" "\<not> isWord CHR ''}''" "\<not> isWord CHR ''(''"
  by (simp_all add: isWord_def)

lemma many1_append:
  assumes "a \<noteq> []" "list_all P a" "r = [] \<or> \<not> P (hd r)"
  shows "many1 P (a @ r) = Some (a, r)"
proof -
  have "takeWhile P r = []" "dropWhile P r = r"
    using assms(3) by (cases r; simp)+
  then have "takeWhile P (a @ r) = a" "dropWhile P (a @ r) = r"
    using assms(2) by (simp_all add: list_all_iff takeWhile_append dropWhile_append)
  then show ?thesis using assms(1) by (simp add: many1_def)
qed

lemma many_append:
  "list_all P a \<Longrightarrow> r = [] \<or> \<not> P (hd r) \<Longrightarrow> many P (a @ r) = r"
  by (cases r) (auto simp: many_def list_all_iff dropWhile_append)

lemma lit_append: "lit p (p @ r) = Some r"
  by (simp add: lit_Some)

lemma namedBlock_complete:
  assumes "sp2 \<noteq> []" "list_all isSpace sp2" "nm \<noteq> []" "list_all isWord nm" "list_all isSpace sp3"
    "body \<noteq> []" "CHR ''}'' \<notin> set body"
  shows "namedBlock (sp2 @ nm @ sp3 @ ''{'' @ body @ ''}'' @ after) = Some ((nm, body), after)"
proof -
  have hd_nm: "\<not> isSpace (hd (nm @ sp3 @ ''{'' @ body @ ''}'' @ after))"
    using assms(3,4) by (cases nm) (auto simp: isWord_not_isSpace)
  have 1: "many1 isSpace (sp2 @ nm @ sp3 @ ''{'' @ body @ ''}'' @ after)
             = Some (sp2, nm @ sp3 @ ''{'' @ body @ ''}'' @ after)"
    using assms(1,2) hd_nm by (intro many1_append) simp_all
  have hd_sp3: "\<not> isWord (hd (sp3 @ ''{'' @ body @ ''}'' @ after))"
    using assms(5) by (cases sp3) (auto dest: isWord_not_isSpace)
  have 2: "many1 isWord (nm @ sp3 @ ''{'' @ body @ ''}'' @ after)
             = Some (nm, sp3 @ ''{'' @ body @ ''}'' @ after)"
    using assms(3,4) hd_sp3 by (intro many1_append) simp_all
  have 3: "many isSpace (sp3 @ ''{'' @ body @ ''}'' @ after) = ''{'' @ body @ ''}'' @ after"
    using assms(5) by (intro many_append) simp_all
  have 4: "many1 (\<lambda>c. c \<noteq> CHR ''}'') (body @ ''}'' @ after) = Some (body, ''}'' @ after)"
    using assms(6,7) by (intro many1_append) (simp_all add: list_all_iff, blast)
  show ?thesis
    unfolding namedBlock_def
    by (simp only: 1 2 3 4 lit_append Option.bind.simps prod.case)
qed

lemma entityRegex_annotated:
  assumes "sp \<noteq> []" "list_all isSpace sp"
    and "namedBlock r = Some (g, after)"
  shows "entityRegex (''@EnableAudit'' @ sp @ ''entity'' @ r) = Some (g, after)"
proof -
  have 1: "lit ''@EnableAudit'' (''@EnableAudit'' @ sp @ ''entity'' @ r) = Some (sp @ ''entity'' @ r)"
    by (rule lit_append)
  have 2: "many1 isSpace (sp @ ''entity'' @ r) = Some (sp, ''entity'' @ r)"
    using assms(1,2) by (intro many1_append) simp_all
  have 3: "lit ''entity'' (''entity'' @ r) = Some r"
    by (rule lit_append)
  show ?thesis
    unfolding entityRegex_def
    by (simp only: 1 2 3 assms(3) Option.bind.simps prod.case option.case)
qed

lemma entityRegex_None:
  assumes "s = [] \<or> (hd s \<noteq> CHR ''@'' \<and> hd s \<noteq> CHR ''e'')"
  shows "entityRegex s = None"
proof -
  have "lit ''@EnableAudit'' s = None" "lit ''entity'' s = None"
    using assms by (cases s; auto simp: lit_def)+
  then show ?thesis by (simp add: entityRegex_def)
qed

lemma findMatch_skip:
  "(\<forall>k < length cm. re (drop k cm @ s) = None) \<Longrightarrow>
   findMatch re i (cm @ s) = findMatch re (i + length cm) s"
proof (induction cm arbitrary: i)
  case Nil
  then show ?case by simp
next
  case (Cons c cm)
  have "re ((c # cm) @ s) = None" using Cons.prems by (auto dest: spec [of _ 0])
  moreover have "\<forall>k < length cm. re (drop k cm @ s) = None"
    using Cons.prems by (auto dest: spec [of _ "Suc k" for k])
  ultimately show ?case using Cons.IH [of "Suc i"] by simp
qed


lemma findMatch_here: "s \<noteq> [] \<Longrightarrow> re s = Some m \<Longrightarrow> findMatch re i s = Some (i, m)"
  by (cases s) simp_all

lemma entityRegex_Nil: "entityRegex [] = None"
  by (simp add: entityRegex_None)

lemma findMatch_skip_n:
  assumes "n \<le> length s" and "\<forall>k < n. re (drop k s) = None"
  shows "findMatch re i s = findMatch re (i + n) (drop n s)"
proof -
  have "\<forall>k < length (take n s). re (drop k (take n s) @ drop n s) = None"
  proof (intro allI impI)
    fix k assume "k < length (take n s)"
    then have k: "k < n" by simp
    have "drop k s = drop k (take n s @ drop n s)" by simp
    also have "\<dots> = drop k (take n s) @ drop (k - length (take n s)) (drop n s)"
      by (rule drop_append)
    also have "\<dots> = drop k (take n s) @ drop n s"
      using k assms(1) by simp
    finally have "drop k (take n s) @ drop n s = drop k s" by simp
    then show "re (drop k (take n s) @ drop n s) = None"
      using assms(2) k by simp
  qed
  from findMatch_skip [OF this, of i] show ?thesis
    using assms(1) by simp
qed

text \<open>
  C10. A line that starts with the line-comment marker and then holds the annotation,
  followed after white space by an entity declaration, with no match of the entity
  expression starting between the loop's \<^verbatim>\<open>lastIndex\<close> and the annotation: the match of the
  entity expression starts at the annotation inside the commented line, the positional
  check says so, and the loop goes on behind the closing brace with the object
  \<^verbatim>\<open>entities\<close> as it was. Where the document holds nothing behind the declaration, the
  model has no entity.
\<close>

theorem commented_annotation_drops_entity:
  assumes line: "before = [] \<or> last before = newline"
    and cm: "newline \<notin> set cm" "startsWith ''//'' (trimStart cm)"
    and sp: "sp \<noteq> []" "list_all isSpace sp"
    and sp2: "sp2 \<noteq> []" "list_all isSpace sp2"
    and nm: "nm \<noteq> []" "list_all isWord nm"
    and sp3: "list_all isSpace sp3"
    and body: "body \<noteq> []" "CHR ''}'' \<notin> set body"
    and decl: "decl = ''@EnableAudit'' @ sp @ ''entity'' @ sp2 @ nm @ sp3 @ ''{'' @ body @ ''}''"
    and content: "content = before @ cm @ decl @ after"
    and li: "lastIndex \<le> length before + length cm"
    and skip: "\<forall>k. lastIndex \<le> k \<and> k < length before + length cm \<longrightarrow>
                 entityRegex (drop k content) = None"
  shows "exec entityRegex content lastIndex
           = Some \<lparr>matchIndex = length before + length cm,
                   matchEnd = length before + length cm + length decl,
                   matchText = decl,
                   captures = (nm, body)\<rparr>
         \<and> isCommented content (length before + length cm)
         \<and> entityLoop content enumsObj lastIndex entitiesObj
             = entityLoop content enumsObj (length before + length cm + length decl) entitiesObj
         \<and> (lastIndex = 0 \<and> after = [] \<and> stripBlockComments content = content \<longrightarrow>
               (\<exists>m. parseJdl content = Some m \<and> entities m = []))"
proof -
  let ?i = "length before + length cm"
  let ?m = "\<lparr>matchIndex = ?i, matchEnd = ?i + length decl, matchText = decl,
             captures = (nm, body)\<rparr>"
  have nb: "namedBlock (sp2 @ nm @ sp3 @ ''{'' @ body @ ''}'' @ after) = Some ((nm, body), after)"
    using sp2 nm sp3 body by (rule namedBlock_complete)
  have da: "decl @ after = ''@EnableAudit'' @ sp @ ''entity'' @ (sp2 @ nm @ sp3 @ ''{'' @ body @ ''}'' @ after)"
    unfolding decl by (simp only: append_assoc)
  have re: "entityRegex (decl @ after) = Some ((nm, body), after)"
    unfolding da using sp nb by (rule entityRegex_annotated)
  have ne: "decl @ after \<noteq> []" and hd: "hd (decl @ after) \<noteq> newline"
    unfolding da by (simp_all add: newline_def)
  have len: "length content = length before + length cm + length decl + length after"
    and tk: "take (length decl) (drop ?i content) = decl"
    and di: "drop ?i content = decl @ after"
    unfolding content by simp_all
  have n: "?i - lastIndex \<le> length (drop lastIndex content)"
    using len by simp
  have sk: "\<forall>k < ?i - lastIndex. entityRegex (drop k (drop lastIndex content)) = None"
    using skip by (simp add: add.commute)
  have "findMatch entityRegex lastIndex (drop lastIndex content)
          = findMatch entityRegex (lastIndex + (?i - lastIndex)) (drop (?i - lastIndex) (drop lastIndex content))"
    by (rule findMatch_skip_n [OF n sk])
  also have "\<dots> = findMatch entityRegex ?i (decl @ after)"
    using li di by simp
  also have "\<dots> = Some (?i, (nm, body), after)"
    using ne re by (rule findMatch_here)
  finally have fm: "findMatch entityRegex lastIndex (drop lastIndex content)
                      = Some (?i, (nm, body), after)" .
  have ex: "exec entityRegex content lastIndex = Some ?m"
    unfolding exec_def fm using len tk li by simp
  have ic: "isCommented content ?i"
    unfolding content
    by (rule isCommented_line [of before cm "decl @ after", OF line cm(1) ne hd cm(2)])
  have lp: "entityLoop content eo lastIndex ent
             = entityLoop content eo (?i + length decl) ent" for eo ent
    by (subst entityLoop.simps) (simp add: ex ic)
  have "\<exists>m. parseJdl content = Some m \<and> entities m = []"
    if "lastIndex = 0" "after = []" "stripBlockComments content = content"
  proof -
    have "exec entityRegex content (length content) = None"
      by (simp add: exec_def entityRegex_Nil)
    then have "entityLoop content (enumsObjectOf content) (length content) emptyObject = Some emptyObject"
      by (subst entityLoop.simps) simp
    moreover have "entityLoop content (enumsObjectOf content) 0 emptyObject
        = entityLoop content (enumsObjectOf content) (length content) emptyObject"
      using lp [of "enumsObjectOf content" emptyObject] that len by simp
    ultimately have "foldl (entityStep content (enumsObjectOf content)) emptyObject
                       (allMatches entityRegex content 0) = emptyObject"
      by (simp add: entityLoop_fold)
    then show ?thesis
      by (simp add: parseJdl_Some that(3) objectValues_def emptyObject_def)
  qed
  then show ?thesis using ex ic lp by blast
qed

theorem commented_annotation_drops_entity_witness:
  "isCommented (''// @EnableAudit'' @ [newline] @ ''entity Foo { x String }'') 3
   \<and> parseJdl (''// @EnableAudit'' @ [newline] @ ''entity Foo { x String }'')
       = Some \<lparr>entities = [], enums = [], relationships = []\<rparr>
   \<and> parseJdl (''//'' @ [newline] @ ''entity Foo { x String }'')
       = Some \<lparr>entities = [\<lparr>name = ''Foo'', entityFields =
                  [\<lparr>fieldName = ''x'', fieldType = ''String'', fieldTypeIsEnum = False,
                     fieldValidateRules = [], comment = None\<rparr>]\<rparr>],
               enums = [], relationships = []\<rparr>"
proof -
  have "isCommented
          ([] @ ''// '' @ (''@EnableAudit'' @ [newline] @ ''entity'' @ '' '' @ ''Foo'' @ '' '' @ ''{''
                           @ '' x String '' @ ''}'') @ [])
          (length ([] :: string) + length ''// '')"
    by (rule commented_annotation_drops_entity [where before = "[]" and cm = "''// ''"
          and sp = "[newline]" and ?sp2.0 = "'' ''" and nm = "''Foo''" and ?sp3.0 = "'' ''"
          and body = "'' x String ''" and after = "[]" and lastIndex = 0
          and enumsObj = emptyObject and entitiesObj = emptyObject,
          THEN conjunct2, THEN conjunct1])
       (auto simp: newline_def isSpace_def isWord_def trimStart_def less_Suc_eq entityRegex_None)
  then have t: "isCommented (''// @EnableAudit'' @ [newline] @ ''entity Foo { x String }'') 3"
    by (simp add: numeral_3_eq_3)
  have a: "parseJdl (''// @EnableAudit'' @ [newline] @ ''entity Foo { x String }'')
       = Some \<lparr>entities = [], enums = [], relationships = []\<rparr>"
    by code_simp
  have b: "parseJdl (''//'' @ [newline] @ ''entity Foo { x String }'')
       = Some \<lparr>entities = [\<lparr>name = ''Foo'', entityFields =
                  [\<lparr>fieldName = ''x'', fieldType = ''String'', fieldTypeIsEnum = False,
                     fieldValidateRules = [], comment = None\<rparr>]\<rparr>],
               enums = [], relationships = []\<rparr>"
    by code_simp
  show ?thesis using t a b by blast
qed

section \<open>Enum-typed fields and duplicate names\<close>




lemma enumName_enumOfMatch: "enumName (enumOfMatch em) = fst (captures em)"
  by (simp add: enumOfMatch_def Let_def)










subsection \<open>Duplicate names\<close>

lemma map_fst_setOwn:
  "map fst (setOwn k v ps) = (if k \<in> fst ` set ps then map fst ps else map fst ps @ [k])"
  by (induction ps) auto

lemma distinct_setOwn: "distinct (map fst ps) \<Longrightarrow> distinct (map fst (setOwn k v ps))"
  by (auto simp: map_fst_setOwn)

lemma distinct_assign:
  "distinct (map fst (ownProps obj)) \<Longrightarrow> distinct (map fst (ownProps (assign obj k v)))"
  by (simp add: ownProps_assign distinct_setOwn)

lemma fold_assign_distinct:
  "distinct (map fst (ownProps acc)) \<Longrightarrow>
   distinct (map fst (ownProps (foldl (\<lambda>obj m. assign obj (key m) (val m)) acc ms)))"
  by (induction ms arbitrary: acc) (simp_all add: distinct_assign)

lemma fold_assign_map_of:
  assumes "k \<noteq> ''__proto__''"
  shows "map_of (ownProps (foldl (\<lambda>obj m. assign obj (key m) (val m)) acc ms)) k
           = (if filter (\<lambda>m. key m = k) ms = [] then map_of (ownProps acc) k
              else Some (val (last (filter (\<lambda>m. key m = k) ms))))"
proof (induction ms rule: rev_induct)
  case Nil
  then show ?case by simp
next
  case (snoc m ms)
  show ?case
  proof (cases "key m = k")
    case True
    then show ?thesis using assms by (simp add: ownProps_assign map_of_setOwn)
  next
    case False
    then show ?thesis using snoc by (simp add: ownProps_assign map_of_setOwn)
  qed
qed

lemma filter_key_single:
  assumes "distinct (map fst ps)" and "map_of ps k = Some v"
  shows "filter (\<lambda>p. fst p = k) ps = [(k, v)]"
  using assms
proof (induction ps)
  case Nil
  then show ?case by simp
next
  case (Cons p ps)
  show ?case
  proof (cases "fst p = k")
    case True
    then have "p = (k, v)" using Cons.prems(2) by (cases p) simp
    moreover have "filter (\<lambda>p. fst p = k) ps = []"
      using Cons.prems(1) True by (auto simp: filter_empty_conv image_iff)
    ultimately show ?thesis by simp
  next
    case False
    then show ?thesis using Cons by (cases p) auto
  qed
qed

lemma filter_key_and:
  "filter (\<lambda>p. Q (fst p) \<and> fst p = k) ps = (if Q k then filter (\<lambda>p. fst p = k) ps else [])"
  by (induction ps) auto

lemma filter_objectValues:
  assumes d: "distinct (map fst (ownProps obj))" and m: "map_of (ownProps obj) k = Some v"
    and n: "\<forall>(k', v') \<in> set (ownProps obj). nm v' = k'"
  shows "filter (\<lambda>e. nm e = k) (objectValues obj) = [v]"
proof -
  let ?ps = "ownProps obj"
  let ?ix = "\<lambda>p. isArrayIndex (fst p)"
  let ?sorted = "sort_key (\<lambda>p. numericValue (fst p)) (filter ?ix ?ps)"
  have eq: "filter (\<lambda>e. nm e = k) (map snd qs) = map snd (filter (\<lambda>p. fst p = k) qs)"
    if "set qs \<subseteq> set ?ps" for qs
    using that n by (induction qs) auto
  have "filter (\<lambda>e. nm e = k) (objectValues obj)
          = map snd (filter (\<lambda>p. fst p = k) ?sorted) @ map snd (filter (\<lambda>p. fst p = k) (filter (\<lambda>p. \<not> ?ix p) ?ps))"
    unfolding objectValues_def map_append filter_append
    by (simp add: eq)
  also have "filter (\<lambda>p. fst p = k) ?sorted = sort_key (\<lambda>p. numericValue (fst p)) (filter (\<lambda>p. fst p = k) (filter ?ix ?ps))"
    by (simp add: filter_sort)
  also have "filter (\<lambda>p. fst p = k) (filter ?ix ?ps) = (if isArrayIndex k then [(k, v)] else [])"
    using filter_key_single [OF d m] filter_key_and [of isArrayIndex k ?ps]
    by (simp add: conj_commute)
  also have "filter (\<lambda>p. fst p = k) (filter (\<lambda>p. \<not> ?ix p) ?ps) = (if isArrayIndex k then [] else [(k, v)])"
    using filter_key_single [OF d m] filter_key_and [of "\<lambda>k. \<not> isArrayIndex k" k ?ps]
    by (simp add: conj_commute)
  finally show ?thesis by simp
qed


lemma name_entityOfMatch: "name (entityOfMatch enumsObj em) = fst (captures em)"
  by (simp add: entityOfMatch_def Let_def)

lemma fold_assign_named:
  assumes "\<And>m. nm (val m) = key m" and "\<forall>(k', v') \<in> set (ownProps acc). nm v' = k'"
  shows "\<forall>(k', v') \<in> set (ownProps (foldl (\<lambda>obj m. assign obj (key m) (val m)) acc ms)). nm v' = k'"
proof (clarify)
  fix k' v' assume "(k', v') \<in> set (ownProps (foldl (\<lambda>obj m. assign obj (key m) (val m)) acc ms))"
  from fold_assign_props [of "\<lambda>obj m. assign obj (key m) (val m)" "\<lambda>m. False" key val, OF _ this]
  show "nm v' = k'" using assms by auto
qed

lemma last_writer_wins:
  assumes "k \<noteq> ''__proto__''" and "filter (\<lambda>m. key m = k) ms \<noteq> []"
    and "\<And>m. nm (val m) = key m"
  shows "filter (\<lambda>e. nm e = k)
           (objectValues (foldl (\<lambda>obj m. assign obj (key m) (val m)) emptyObject ms))
         = [val (last (filter (\<lambda>m. key m = k) ms))]"
proof (rule filter_objectValues)
  show "distinct (map fst (ownProps (foldl (\<lambda>obj m. assign obj (key m) (val m)) emptyObject ms)))"
    by (rule fold_assign_distinct) (simp add: emptyObject_def)
  show "map_of (ownProps (foldl (\<lambda>obj m. assign obj (key m) (val m)) emptyObject ms)) k
          = Some (val (last (filter (\<lambda>m. key m = k) ms)))"
    using assms(1,2) by (simp add: fold_assign_map_of)
  show "\<forall>(k', v') \<in> set (ownProps (foldl (\<lambda>obj m. assign obj (key m) (val m)) emptyObject ms)).
          nm v' = k'"
    by (rule fold_assign_named [of nm val key]) (simp_all add: assms(3) emptyObject_def)
qed

lemma duplicate_entities_last_wins:
  assumes "parseJdl jdlContent = Some m" and "k \<noteq> ''__proto__''"
    and "filter (\<lambda>em. fst (captures em) = k)
           (uncommented (stripBlockComments jdlContent)
              (allMatches entityRegex (stripBlockComments jdlContent) 0)) \<noteq> []"
  shows "filter (\<lambda>e. name e = k) (entities m)
           = [entityOfMatch (enumsObjectOf (stripBlockComments jdlContent))
                (last (filter (\<lambda>em. fst (captures em) = k)
                   (uncommented (stripBlockComments jdlContent)
                      (allMatches entityRegex (stripBlockComments jdlContent) 0))))]"
proof -
  have "entities m = objectValues
          (foldl (\<lambda>entitiesObj em.
                    assign entitiesObj (fst (captures em))
                      (entityOfMatch (enumsObjectOf (stripBlockComments jdlContent)) em))
             emptyObject
             (uncommented (stripBlockComments jdlContent)
                (allMatches entityRegex (stripBlockComments jdlContent) 0)))"
    using assms(1) by (simp add: parseJdl_uncommented) auto
  then show ?thesis
    using last_writer_wins [of k "\<lambda>em. fst (captures em)" _ name
        "entityOfMatch (enumsObjectOf (stripBlockComments jdlContent))", OF assms(2,3)]
    by (simp add: name_entityOfMatch)
qed

lemma duplicate_enums_last_wins:
  assumes "parseJdl jdlContent = Some m" and "k \<noteq> ''__proto__''"
    and "filter (\<lambda>em. fst (captures em) = k)
           (uncommented (stripBlockComments jdlContent)
              (allMatches enumRegex (stripBlockComments jdlContent) 0)) \<noteq> []"
  shows "filter (\<lambda>e. enumName e = k) (enums m)
           = [enumOfMatch
                (last (filter (\<lambda>em. fst (captures em) = k)
                   (uncommented (stripBlockComments jdlContent)
                      (allMatches enumRegex (stripBlockComments jdlContent) 0))))]"
proof -
  have "enums m = objectValues
          (foldl (\<lambda>enumsObj em. assign enumsObj (fst (captures em)) (enumOfMatch em))
             emptyObject
             (uncommented (stripBlockComments jdlContent)
                (allMatches enumRegex (stripBlockComments jdlContent) 0)))"
    using assms(1) by (simp add: parseJdl_uncommented) auto
  then show ?thesis
    using last_writer_wins [of k "\<lambda>em. fst (captures em)" _ enumName enumOfMatch, OF assms(2,3)]
    by (simp add: enumName_enumOfMatch)
qed

text \<open>
  C8 holds for every name but one (\<open>duplicate_entities_last_wins\<close>,
  \<open>duplicate_enums_last_wins\<close>: the records of the model with a given name are exactly the
  record of the last match of that name outside line comments). It fails for the name
  \<^verbatim>\<open>__proto__\<close>: the assignment \<^verbatim>\<open>entities['__proto__'] = ...\<close> sets the
  prototype of the object and creates no property, so \<^verbatim>\<open>Object.values\<close> returns no record
  for that name, for one declaration as for two; the same holds for enums.
\<close>

theorem duplicate_proto_no_record:
  "parseJdl ''entity __proto__ { a String }
entity __proto__ { b String }
enum __proto__ { A }
enum __proto__ { B }''
     = Some \<lparr>entities = [], enums = [], relationships = []\<rparr>
   \<and> parseJdl ''entity Foo { a String }
entity Foo { b String }
enum Bar { A }
enum Bar { B }''
     = Some \<lparr>entities = [\<lparr>name = ''Foo'', entityFields =
                [\<lparr>fieldName = ''b'', fieldType = ''String'', fieldTypeIsEnum = False,
                   fieldValidateRules = [], comment = None\<rparr>]\<rparr>],
             enums = [\<lparr>enumName = ''Bar'', enumValues = [\<lparr>valueName = ''B''\<rparr>]\<rparr>],
             relationships = []\<rparr>"
  by code_simp

end
